theory Spec2Isabelle
  imports Main "HOL-Library.List_Lexorder" "HOL-Library.Multiset"
begin

section \<open>Python string operations used by the kernel manager\<close>

text \<open>
  Text is modelled as ASCII: a \<open>string\<close> is a list of bytes, which is what
  \<^verbatim>\<open>uname -r\<close> and \<^verbatim>\<open>dpkg\<close> print for package names and versions.
\<close>

definition isspace :: "char \<Rightarrow> bool" where
  \<comment> \<open>\<^verbatim>\<open>str.isspace\<close> on ASCII: TAB, LF, VT, FF, CR, FS, GS, RS, US and the blank.\<close>
  "isspace c = (let n = (of_char c :: nat) in (9 \<le> n \<and> n \<le> 13) \<or> (28 \<le> n \<and> n \<le> 32))"

definition isdigit :: "char \<Rightarrow> bool" where
  \<comment> \<open>what \<^verbatim>\<open>\d\<close> matches in ASCII text\<close>
  "isdigit c = (let n = (of_char c :: nat) in 48 \<le> n \<and> n \<le> 57)"

definition strip :: "string \<Rightarrow> string" where
  \<comment> \<open>\<^verbatim>\<open>s.strip()\<close>\<close>
  "strip s = rev (dropWhile isspace (rev (dropWhile isspace s)))"

fun split_acc :: "string \<Rightarrow> string \<Rightarrow> string list" where
  "split_acc w [] = (if w = [] then [] else [w])"
| "split_acc w (c # cs) =
     (if isspace c then (if w = [] then split_acc [] cs else w # split_acc [] cs)
      else split_acc (w @ [c]) cs)"

definition split :: "string \<Rightarrow> string list" where
  \<comment> \<open>\<^verbatim>\<open>s.split()\<close>: the maximal runs of characters that are not whitespace\<close>
  "split s = split_acc [] s"

fun split_on_acc :: "char \<Rightarrow> string \<Rightarrow> string \<Rightarrow> string list" where
  "split_on_acc sep w [] = [w]"
| "split_on_acc sep w (c # cs) =
     (if c = sep then w # split_on_acc sep [] cs else split_on_acc sep (w @ [c]) cs)"

definition split_on :: "char \<Rightarrow> string \<Rightarrow> string list" where
  \<comment> \<open>\<^verbatim>\<open>s.split(sep)\<close> for a separator of one character\<close>
  "split_on sep s = split_on_acc sep [] s"

fun startswith :: "string \<Rightarrow> string \<Rightarrow> bool" where
  \<comment> \<open>\<^verbatim>\<open>s.startswith(p)\<close>\<close>
  "startswith s [] = True"
| "startswith [] (p # ps) = False"
| "startswith (c # cs) (p # ps) = (c = p \<and> startswith cs ps)"

fun contains :: "string \<Rightarrow> string \<Rightarrow> bool" where
  \<comment> \<open>\<^verbatim>\<open>sub in s\<close>, written \<open>contains s sub\<close>\<close>
  "contains [] sub = (sub = [])"
| "contains (c # cs) sub = (startswith (c # cs) sub \<or> contains cs sub)"

function replace_empty :: "string \<Rightarrow> string \<Rightarrow> string" where
  \<comment> \<open>\<^verbatim>\<open>s.replace(old, "")\<close>, written \<open>replace_empty old s\<close>: every occurrence of
      \<open>old\<close>, found left to right without overlap, is dropped\<close>
  "replace_empty old [] = []"
| "replace_empty old (c # cs) =
     (if old \<noteq> [] \<and> startswith (c # cs) old
      then replace_empty old (drop (length old - 1) cs)
      else c # replace_empty old cs)"
  by pat_completeness auto
termination
  by (relation "measure (\<lambda>(old, s). length s)") auto


fun findall_digits_acc :: "string \<Rightarrow> string \<Rightarrow> string list" where
  "findall_digits_acc w [] = (if w = [] then [] else [w])"
| "findall_digits_acc w (c # cs) =
     (if isdigit c then findall_digits_acc (w @ [c]) cs
      else (if w = [] then findall_digits_acc [] cs else w # findall_digits_acc [] cs))"

definition findall_digits :: "string \<Rightarrow> string list" where
  \<comment> \<open>\<^verbatim>\<open>re.findall(r'\d+', x)\<close>: the maximal runs of digits, left to right\<close>
  "findall_digits x = findall_digits_acc [] x"

definition int_of_digits :: "string \<Rightarrow> int" where
  \<comment> \<open>\<^verbatim>\<open>int(part)\<close> on a run of decimal digits\<close>
  "int_of_digits part = fold (\<lambda>c n. 10 * n + (int (of_char c) - 48)) part 0"




section \<open>The system the tool runs on\<close>

text \<open>
  Each subprocess the manager starts is an input of the model. \<open>None\<close> stands for
  \<^verbatim>\<open>subprocess.CalledProcessError\<close>; output that is read line by line is given as
  its list of lines (\<^verbatim>\<open>output.splitlines()\<close>).
\<close>

record system =
  uname_r :: "string option"  \<comment> \<open>\<^verbatim>\<open>uname -r\<close>\<close>
  dpkg_l :: "string list option"  \<comment> \<open>\<^verbatim>\<open>dpkg -l linux-image-*\<close>\<close>
  dpkg_s :: "string \<Rightarrow> string list option"  \<comment> \<open>\<^verbatim>\<open>dpkg -s <package>\<close>\<close>
  now :: int  \<comment> \<open>\<^verbatim>\<open>datetime.now()\<close>\<close>

text \<open>
  A \<^verbatim>\<open>datetime\<close> is the number of microseconds since \<^verbatim>\<open>datetime.min\<close>
  (0001-01-01 00:00:00), a \<^verbatim>\<open>timedelta\<close> a number of microseconds. The two
  conversions between text and time are Python's own and stay parameters:
  \<open>strptime\<close> is \<^verbatim>\<open>datetime.strptime(s, "%Y-%m-%d %H:%M:%S")\<close>, and
  \<open>format_timestamp\<close> is
  \<^verbatim>\<open>datetime.fromtimestamp(int(s)).strftime("%Y-%m-%d %H:%M:%S")\<close>;
  \<open>None\<close> is an exception raised by either.
\<close>

record datetime_lib =
  strptime :: "string \<Rightarrow> int option"
  format_timestamp :: "string \<Rightarrow> string option"

datatype py_error = OverflowError

definition datetime_max :: int where
  \<comment> \<open>9999-12-31 23:59:59.999999\<close>
  "datetime_max = 3652059 * 86400000000 - 1"

definition timedelta_days :: "int \<Rightarrow> py_error + int" where
  \<comment> \<open>\<^verbatim>\<open>timedelta(days=d)\<close>\<close>
  "timedelta_days d = (if \<bar>d\<bar> > 999999999 then Inl OverflowError else Inr (d * 86400000000))"

definition datetime_sub :: "int \<Rightarrow> int \<Rightarrow> py_error + int" where
  \<comment> \<open>\<^verbatim>\<open>t - delta\<close> on a datetime\<close>
  "datetime_sub t delta =
     (let r = t - delta in if r < 0 \<or> datetime_max < r then Inl OverflowError else Inr r)"

section \<open>Configuration\<close>

record KernelCleanupPolicy =
  keep_latest :: int
  keep_days :: int
  dry_run :: bool
  exclude_current :: bool
  exclude_fallback :: bool
  min_kernels :: int

definition default_policy :: KernelCleanupPolicy where
  "default_policy =
     \<lparr>keep_latest = 2, keep_days = 30, dry_run = False, exclude_current = True,
      exclude_fallback = True, min_kernels = 1\<rparr>"

section \<open>KernelManager\<close>

record KernelManager =
  current_kernel :: string
  fallback_kernel :: string

record kernel_info =
  version :: string
  is_current :: bool
  install_date :: string
  size_text :: string  \<comment> \<open>the entry \<^verbatim>\<open>"size"\<close>\<close>
  is_fallback :: bool

definition get_current_kernel :: "system \<Rightarrow> string" where
  "get_current_kernel sys = (case uname_r sys of Some out \<Rightarrow> strip out | None \<Rightarrow> [])"

definition parse_line :: "string \<Rightarrow> string list \<Rightarrow> string list" where
  \<comment> \<open>the body of the loop over the lines of \<^verbatim>\<open>dpkg -l\<close>\<close>
  "parse_line line kernels =
     (if contains line ''ii'' \<and> contains line ''linux-image-'' then
        (let parts = split line in
         if length parts \<ge> 3 then
           (let pkg_name = parts ! 1 in
            if contains pkg_name ''linux-image-'' then
              (let version = replace_empty ''linux-image-'' pkg_name in
               if version \<notin> set kernels then kernels @ [version] else kernels)
            else kernels)
         else kernels)
      else kernels)"

definition version_key :: "string \<Rightarrow> int list" where
  \<comment> \<open>the sort key \<^verbatim>\<open>[int(part) for part in re.findall(r'\d+', x)]\<close>\<close>
  "version_key x = map int_of_digits (findall_digits x)"

definition sort_reverse :: "('a \<Rightarrow> 'k::linorder) \<Rightarrow> 'a list \<Rightarrow> 'a list" where
  \<comment> \<open>\<^verbatim>\<open>xs.sort(key=f, reverse=True)\<close>. Python's sort is stable, and it sorts in
      reverse by reversing the list, sorting it forward and reversing the result, so that
      elements with equal keys keep their order.\<close>
  "sort_reverse f xs = rev (sort_key f (rev xs))"

definition list_installed_kernels :: "system \<Rightarrow> string list" where
  "list_installed_kernels sys =
     (case dpkg_l sys of
        Some lines \<Rightarrow> sort_reverse version_key (fold parse_line lines [])
      | None \<Rightarrow> [])"

definition get_fallback_kernel :: "system \<Rightarrow> string \<Rightarrow> string" where
  \<comment> \<open>\<open>current\<close> is \<^verbatim>\<open>self.current_kernel\<close>, assigned just before the call\<close>
  "get_fallback_kernel sys current =
     (let kernels = list_installed_kernels sys in
      if length kernels > 1 then kernels ! 1 else current)"

definition init :: "system \<Rightarrow> KernelManager" where
  \<comment> \<open>\<^verbatim>\<open>KernelManager.__init__\<close>\<close>
  "init sys =
     (let current = get_current_kernel sys in
      \<lparr>current_kernel = current, fallback_kernel = get_fallback_kernel sys current\<rparr>)"

fun install_date_loop :: "datetime_lib \<Rightarrow> string list \<Rightarrow> string \<Rightarrow> string" where
  \<comment> \<open>the loop over the lines of \<^verbatim>\<open>dpkg -s\<close>; an exception leaves the loop with the
      date assigned so far\<close>
  "install_date_loop lib [] date = date"
| "install_date_loop lib (line # lines) date =
     (if startswith line ''Install-Time:'' then
        (let fields = split_on CHR '':'' line in
         if length fields < 2 then date
         else (case format_timestamp lib (strip (fields ! 1)) of
                 None \<Rightarrow> date
               | Some d \<Rightarrow> install_date_loop lib lines d))
      else install_date_loop lib lines date)"

fun size_loop :: "string list \<Rightarrow> string \<Rightarrow> string" where
  "size_loop [] sz = sz"
| "size_loop (line # lines) sz =
     (if startswith line ''Installed-Size:'' then
        (let fields = split_on CHR '':'' line in
         if length fields < 2 then sz
         else size_loop lines (strip (fields ! 1) @ '' KB''))
      else size_loop lines sz)"

definition get_kernel_info :: "KernelManager \<Rightarrow> system \<Rightarrow> datetime_lib \<Rightarrow> string \<Rightarrow> kernel_info" where
  "get_kernel_info self sys lib kernel_version =
     \<lparr>version = kernel_version,
      is_current = (kernel_version = current_kernel self),
      install_date =
        (case dpkg_s sys (''linux-image-'' @ kernel_version) of
           Some lines \<Rightarrow> install_date_loop lib lines []
         | None \<Rightarrow> []),
      size_text =
        (case dpkg_s sys (''linux-image-'' @ kernel_version) of
           Some lines \<Rightarrow> size_loop lines ''N/A''
         | None \<Rightarrow> ''N/A''),
      is_fallback = (kernel_version = fallback_kernel self)\<rparr>"

subsection \<open>identify_kernels_to_remove\<close>

definition kernels_info :: "KernelManager \<Rightarrow> system \<Rightarrow> datetime_lib \<Rightarrow> kernel_info list" where
  \<comment> \<open>\<^verbatim>\<open>[self.get_kernel_info(k) for k in self.list_installed_kernels()]\<close>\<close>
  "kernels_info self sys lib = map (get_kernel_info self sys lib) (list_installed_kernels sys)"

definition keep_current_rule :: "KernelCleanupPolicy \<Rightarrow> kernel_info list \<Rightarrow> string list \<Rightarrow> string list" where
  \<comment> \<open>"Always keep current kernel"\<close>
  "keep_current_rule policy infos keep_kernels =
     (if exclude_current policy then
        (case find is_current infos of
           Some current \<Rightarrow> keep_kernels @ [version current]
         | None \<Rightarrow> keep_kernels)
      else keep_kernels)"

definition keep_fallback_rule :: "KernelManager \<Rightarrow> KernelCleanupPolicy \<Rightarrow> string list \<Rightarrow> string list" where
  \<comment> \<open>"Keep fallback kernel"\<close>
  "keep_fallback_rule self policy keep_kernels =
     (if exclude_fallback policy \<and> fallback_kernel self \<noteq> [] then
        keep_kernels @ [fallback_kernel self]
      else keep_kernels)"

definition keep_latest_rule :: "KernelCleanupPolicy \<Rightarrow> kernel_info list \<Rightarrow> string list \<Rightarrow> string list" where
  \<comment> \<open>"Keep latest N kernels"\<close>
  "keep_latest_rule policy infos keep_kernels =
     (let latest_to_keep = min (keep_latest policy) (int (length infos)) in
      fold (\<lambda>i keep. if version (infos ! i) \<notin> set keep then keep @ [version (infos ! i)] else keep)
        [0 ..< nat (min latest_to_keep (int (length infos)))] keep_kernels)"

definition cutoff_date :: "system \<Rightarrow> KernelCleanupPolicy \<Rightarrow> py_error + int" where
  \<comment> \<open>\<^verbatim>\<open>datetime.now() - timedelta(days=policy.keep_days)\<close>\<close>
  "cutoff_date sys policy =
     (case timedelta_days (keep_days policy) of
        Inl e \<Rightarrow> Inl e
      | Inr delta \<Rightarrow> datetime_sub (now sys) delta)"

definition keep_days_rule :: "datetime_lib \<Rightarrow> int \<Rightarrow> kernel_info list \<Rightarrow> string list \<Rightarrow> string list" where
  \<comment> \<open>"Keep kernels installed within last X days"; an exception of \<open>strptime\<close> is
      caught and the record passed over\<close>
  "keep_days_rule lib cutoff infos keep_kernels =
     fold (\<lambda>k keep.
            if install_date k \<noteq> ''Unknown'' then
              (case strptime lib (install_date k) of
                 None \<Rightarrow> keep
               | Some d \<Rightarrow> if d > cutoff \<and> version k \<notin> set keep then keep @ [version k] else keep)
            else keep)
       infos keep_kernels"

fun min_kernels_loop :: "int \<Rightarrow> kernel_info list \<Rightarrow> string list \<Rightarrow> string list" where
  "min_kernels_loop m [] keep = keep"
| "min_kernels_loop m (k # ks) keep =
     (if int (length keep) \<ge> m then keep
      else min_kernels_loop m ks (if version k \<notin> set keep then keep @ [version k] else keep))"

definition min_kernels_rule :: "KernelCleanupPolicy \<Rightarrow> kernel_info list \<Rightarrow> string list \<Rightarrow> string list" where
  \<comment> \<open>"Ensure we have at least min_kernels"\<close>
  "min_kernels_rule policy infos keep_kernels =
     (if int (length keep_kernels) < min_kernels policy then
        min_kernels_loop (min_kernels policy) infos keep_kernels
      else keep_kernels)"

definition keep_before_days :: "KernelManager \<Rightarrow> KernelCleanupPolicy \<Rightarrow> kernel_info list \<Rightarrow> string list" where
  \<comment> \<open>\<^verbatim>\<open>keep_kernels\<close> when the loop of the latest N kernels is left\<close>
  "keep_before_days self policy infos =
     keep_latest_rule policy infos
       (keep_fallback_rule self policy (keep_current_rule policy infos []))"

definition keep_before_min :: "KernelManager \<Rightarrow> system \<Rightarrow> datetime_lib \<Rightarrow> KernelCleanupPolicy \<Rightarrow> py_error + string list" where
  \<comment> \<open>\<^verbatim>\<open>keep_kernels\<close> when "Ensure we have at least min_kernels" is reached\<close>
  "keep_before_min self sys lib policy =
     (let infos = kernels_info self sys lib;
          keep = keep_before_days self policy infos
      in if keep_days policy > 0 then
           (case cutoff_date sys policy of
              Inl e \<Rightarrow> Inl e
            | Inr cutoff \<Rightarrow> Inr (keep_days_rule lib cutoff infos keep))
         else Inr keep)"

definition keep_kernels :: "KernelManager \<Rightarrow> system \<Rightarrow> datetime_lib \<Rightarrow> KernelCleanupPolicy \<Rightarrow> py_error + string list" where
  \<comment> \<open>the local \<^verbatim>\<open>keep_kernels\<close> when the remove list is built\<close>
  "keep_kernels self sys lib policy =
     (case keep_before_min self sys lib policy of
        Inl e \<Rightarrow> Inl e
      | Inr keep \<Rightarrow> Inr (min_kernels_rule policy (kernels_info self sys lib) keep))"

definition identify_kernels_to_remove :: "KernelManager \<Rightarrow> system \<Rightarrow> datetime_lib \<Rightarrow> KernelCleanupPolicy \<Rightarrow> py_error + kernel_info list" where
  "identify_kernels_to_remove self sys lib policy =
     (case keep_kernels self sys lib policy of
        Inl e \<Rightarrow> Inl e
      | Inr keep \<Rightarrow> Inr (filter (\<lambda>k. version k \<notin> set keep) (kernels_info self sys lib)))"

subsection \<open>remove_kernels\<close>








section \<open>Example hosts\<close>

text \<open>
  Concrete inputs on which the definitions above are run. The table \<open>py_datetime\<close>
  holds the values of Python's two conversions on the texts the examples use (a time
  stamp read in UTC); every other text raises.
\<close>

definition py_datetime :: datetime_lib where
  "py_datetime =
     \<lparr>strptime = (\<lambda>s. if s = ''2026-10-30 12:00:00'' then Some 63928958400000000
                       else if s = ''2026-05-28 20:26:40'' then Some 63915596800000000
                       else None),
      format_timestamp = (\<lambda>s. if s = ''1793361600'' then Some ''2026-10-30 12:00:00''
                               else if s = ''1780000000'' then Some ''2026-05-28 20:26:40''
                               else None)\<rparr>"

definition noon_2026_11_04 :: int where
  "noon_2026_11_04 = 63929390400000000"

definition host_five :: system where
  \<comment> \<open>five kernels, the newest one running; \<^verbatim>\<open>dpkg -s\<close> shows no install time\<close>
  "host_five =
     \<lparr>uname_r = Some ''6.1.0\<newline>'',
      dpkg_l = Some [''||/ Name Version Architecture Description'',
                     ''ii  linux-image-5.10.0 5.10.0-1 amd64 Linux'',
                     ''ii  linux-image-5.15.0 5.15.0-1 amd64 Linux'',
                     ''ii  linux-image-5.19.2 5.19.2-1 amd64 Linux'',
                     ''ii  linux-image-6.0.5 6.0.5-1 amd64 Linux'',
                     ''ii  linux-image-6.1.0 6.1.0-1 amd64 Linux''],
      dpkg_s = (\<lambda>p. Some [''Package: '' @ p, ''Status: install ok installed'']),
      now = noon_2026_11_04\<rparr>"

definition host_rebooting :: system where
  \<comment> \<open>three kernels; the newest was installed after the last boot, so the running
      kernel is the second newest\<close>
  "host_rebooting =
     \<lparr>uname_r = Some ''6.0.5\<newline>'',
      dpkg_l = Some [''ii  linux-image-5.19.2 5.19.2-1 amd64 Linux'',
                     ''ii  linux-image-6.0.5 6.0.5-1 amd64 Linux'',
                     ''ii  linux-image-6.1.0 6.1.0-1 amd64 Linux''],
      dpkg_s = (\<lambda>p. Some [''Package: '' @ p, ''Status: install ok installed'']),
      now = noon_2026_11_04\<rparr>"

definition host_foreign :: system where
  \<comment> \<open>one kernel package installed; the host runs a kernel that is no package\<close>
  "host_foreign =
     \<lparr>uname_r = Some ''6.1.0-custom\<newline>'',
      dpkg_l = Some [''ii  linux-image-5.10.0 5.10.0-1 amd64 Linux''],
      dpkg_s = (\<lambda>p. Some [''Package: '' @ p, ''Status: install ok installed'']),
      now = noon_2026_11_04\<rparr>"

definition host_dated :: system where
  \<comment> \<open>three kernels with install times: the oldest version was installed five days
      ago, the two newer ones 159 days ago\<close>
  "host_dated =
     \<lparr>uname_r = Some ''6.1.0\<newline>'',
      dpkg_l = Some [''ii  linux-image-5.19.2 5.19.2-1 amd64 Linux'',
                     ''ii  linux-image-6.0.5 6.0.5-1 amd64 Linux'',
                     ''ii  linux-image-6.1.0 6.1.0-1 amd64 Linux''],
      dpkg_s = (\<lambda>p. if p = ''linux-image-5.19.2''
                     then Some [''Package: '' @ p, ''Install-Time: 1793361600'']
                     else Some [''Package: '' @ p, ''Install-Time: 1780000000'']),
      now = noon_2026_11_04\<rparr>"

definition host_versions :: system where
  \<comment> \<open>versions whose order by text differs from their order by number, and two
      versions with the same numbers\<close>
  "host_versions =
     \<lparr>uname_r = Some ''5.10.0\<newline>'',
      dpkg_l = Some [''ii  linux-image-5.9.0 5.9.0-1 amd64 Linux'',
                     ''ii  linux-image-5.10.0-b 5.10.0-1 amd64 Linux'',
                     ''ii  linux-image-5.10.0-a 5.10.0-1 amd64 Linux''],
      dpkg_s = (\<lambda>p. None),
      now = noon_2026_11_04\<rparr>"




section \<open>Facts about the rules\<close>

lemma fold_grows:
  assumes "\<And>x acc. set acc \<subseteq> set (f x acc)"
  shows "set acc \<subseteq> set (fold f xs acc)"
proof (induction xs arbitrary: acc)
  case Nil
  show ?case by simp
next
  case (Cons x xs)
  have "set acc \<subseteq> set (f x acc)" by (rule assms)
  also have "\<dots> \<subseteq> set (fold f xs (f x acc))" by (rule Cons.IH)
  finally show ?case by simp
qed

lemma keep_current_rule_grows: "set keep \<subseteq> set (keep_current_rule policy infos keep)"
  by (auto simp: keep_current_rule_def split: option.splits)

lemma keep_fallback_rule_grows: "set keep \<subseteq> set (keep_fallback_rule self policy keep)"
  by (auto simp: keep_fallback_rule_def)

lemma keep_latest_rule_grows: "set keep \<subseteq> set (keep_latest_rule policy infos keep)"
  unfolding keep_latest_rule_def Let_def
  by (rule fold_grows) auto

lemma keep_days_rule_grows: "set keep \<subseteq> set (keep_days_rule lib cutoff infos keep)"
  unfolding keep_days_rule_def
  by (rule fold_grows) (auto split: option.splits)

lemma min_kernels_loop_grows: "set keep \<subseteq> set (min_kernels_loop m ks keep)"
proof (induction ks arbitrary: keep)
  case Nil
  show ?case by simp
next
  case (Cons k ks)
  show ?case using Cons.IH[of "keep @ [version k]"] Cons.IH[of keep] by auto
qed

lemma min_kernels_rule_grows: "set keep \<subseteq> set (min_kernels_rule policy infos keep)"
  by (simp add: min_kernels_rule_def min_kernels_loop_grows)

lemma keep_before_min_grows:
  assumes "keep_before_min self sys lib policy = Inr keep"
  shows "set (keep_before_days self policy (kernels_info self sys lib)) \<subseteq> set keep"
  using assms keep_days_rule_grows[of "keep_before_days self policy (kernels_info self sys lib)" lib]
  by (auto simp: keep_before_min_def Let_def split: if_splits sum.splits)

lemma keep_kernels_grows:
  assumes "keep_kernels self sys lib policy = Inr keep"
  shows "set (keep_before_days self policy (kernels_info self sys lib)) \<subseteq> set keep"
proof -
  from assms obtain keep5 where k5: "keep_before_min self sys lib policy = Inr keep5"
    and keep: "keep = min_kernels_rule policy (kernels_info self sys lib) keep5"
    by (auto simp: keep_kernels_def split: sum.splits)
  from keep_before_min_grows[OF k5] min_kernels_rule_grows keep show ?thesis by blast
qed

lemma is_current_kernels_info:
  "k \<in> set (kernels_info self sys lib) \<Longrightarrow> is_current k = (version k = current_kernel self)"
  by (auto simp: kernels_info_def get_kernel_info_def)

lemma is_fallback_kernels_info:
  "k \<in> set (kernels_info self sys lib) \<Longrightarrow> is_fallback k = (version k = fallback_kernel self)"
  by (auto simp: kernels_info_def get_kernel_info_def)

lemma version_kernels_info:
  "map version (kernels_info self sys lib) = list_installed_kernels sys"
  by (simp add: kernels_info_def get_kernel_info_def comp_def)

subsection \<open>The keep list and the remove list\<close>

text \<open>
  The remove list is the catalog, in order, without the records whose version is in the
  keep list: every record of the catalog is either removed or has a kept version, never
  both, and no removed version is in the keep list. Whether the keep list holds versions
  of the catalog only is another matter, settled further down.
\<close>

lemma identify_filter:
  assumes "identify_kernels_to_remove self sys lib policy = Inr remove"
  shows "\<exists>keep. keep_kernels self sys lib policy = Inr keep
           \<and> remove = filter (\<lambda>k. version k \<notin> set keep) (kernels_info self sys lib)
           \<and> set remove \<union> {k \<in> set (kernels_info self sys lib). version k \<in> set keep}
               = set (kernels_info self sys lib)
           \<and> set remove \<inter> {k \<in> set (kernels_info self sys lib). version k \<in> set keep} = {}
           \<and> version ` set remove \<inter> set keep = {}"
proof -
  from assms obtain keep where k: "keep_kernels self sys lib policy = Inr keep"
    and r: "remove = filter (\<lambda>k. version k \<notin> set keep) (kernels_info self sys lib)"
    by (auto simp: identify_kernels_to_remove_def split: sum.splits)
  from r have "set remove \<union> {k \<in> set (kernels_info self sys lib). version k \<in> set keep}
               = set (kernels_info self sys lib)" by auto
  moreover from r have "set remove \<inter> {k \<in> set (kernels_info self sys lib). version k \<in> set keep} = {}"
    by auto
  moreover from r have "version ` set remove \<inter> set keep = {}" by auto
  ultimately show ?thesis using k r by blast
qed

text \<open>
  C2. With \<open>exclude_current\<close> set, no record of the remove list is marked current and
  the running kernel's version is not among the removed versions, whatever the other
  fields of the policy and whatever the manager holds as its fallback.
\<close>

theorem current_never_removed:
  assumes ex: "exclude_current policy"
    and id: "identify_kernels_to_remove self sys lib policy = Inr remove"
  shows "(\<forall>k \<in> set remove. \<not> is_current k) \<and> current_kernel self \<notin> version ` set remove"
proof -
  let ?infos = "kernels_info self sys lib"
  from id obtain keep where k: "keep_kernels self sys lib policy = Inr keep"
    and r: "remove = filter (\<lambda>k. version k \<notin> set keep) ?infos"
    by (auto simp: identify_kernels_to_remove_def split: sum.splits)
  have no: "version k \<noteq> current_kernel self" if "k \<in> set remove" for k
  proof
    assume v: "version k = current_kernel self"
    from that r have kin: "k \<in> set ?infos" and notkeep: "version k \<notin> set keep" by auto
    from kin v have "is_current k" by (simp add: is_current_kernels_info)
    with kin obtain c where f: "find is_current ?infos = Some c"
      by (cases "find is_current ?infos") (auto simp: find_None_iff)
    then have "is_current c" and "c \<in> set ?infos"
      by (auto simp: find_Some_iff)
    then have vc: "version c = current_kernel self" by (simp add: is_current_kernels_info)
    from f ex have "version c \<in> set (keep_current_rule policy ?infos [])"
      by (simp add: keep_current_rule_def)
    then have "version c \<in> set (keep_before_days self policy ?infos)"
      unfolding keep_before_days_def
      using keep_fallback_rule_grows keep_latest_rule_grows by blast
    with keep_kernels_grows[OF k] have "version c \<in> set keep" by blast
    with vc v notkeep show False by simp
  qed
  have "\<not> is_current k" if "k \<in> set remove" for k
  proof -
    from that r have "k \<in> set ?infos" by auto
    with no[OF that] show ?thesis by (simp add: is_current_kernels_info)
  qed
  moreover have "current_kernel self \<notin> version ` set remove"
    using no by force
  ultimately show ?thesis by blast
qed


theorem current_never_removed_witness:
  "exclude_current default_policy
   \<and> (\<exists>remove. identify_kernels_to_remove (init host_rebooting) host_rebooting py_datetime
                   default_policy = Inr remove
         \<and> map version remove = [''5.19.2'']
         \<and> current_kernel (init host_rebooting) = ''6.0.5''
         \<and> current_kernel (init host_rebooting) \<notin> version ` set remove)"
proof -
  have x: "exclude_current default_policy" by (simp add: default_policy_def)
  have e: "identify_kernels_to_remove (init host_rebooting) host_rebooting py_datetime
             default_policy =
    Inr [\<lparr>version = ''5.19.2'', is_current = False, install_date = [],
           size_text = ''N/A'', is_fallback = False\<rparr>]"
    by code_simp
  have c: "current_kernel (init host_rebooting) = ''6.0.5''" by code_simp
  from current_never_removed[OF x e] x c show ?thesis
    unfolding e by auto
qed

subsection \<open>Growing the policy\<close>

lemma min_kernels_loop_enough:
  "m \<le> int (length keep) \<Longrightarrow> min_kernels_loop m ks keep = keep"
  by (cases ks) auto

lemma min_kernels_rule_loop:
  "min_kernels_rule policy infos keep = min_kernels_loop (min_kernels policy) infos keep"
  by (simp add: min_kernels_rule_def min_kernels_loop_enough)

lemma min_kernels_loop_skip:
  assumes "\<forall>k \<in> set pre. version k \<in> set keep"
  shows "min_kernels_loop m (pre @ rest) keep = min_kernels_loop m rest keep"
  using assms
proof (induction pre)
  case Nil
  show ?case by simp
next
  case (Cons k pre)
  then show ?case by (simp add: min_kernels_loop_enough)
qed

lemma min_kernels_loop_cong:
  assumes "set keep = set keep'" and "length keep = length keep'"
  shows "set (min_kernels_loop m ks keep) = set (min_kernels_loop m ks keep')"
  using assms
proof (induction ks arbitrary: keep keep')
  case Nil
  then show ?case by simp
next
  case (Cons k ks)
  show ?case
  proof (cases "m \<le> int (length keep)")
    case True
    with Cons.prems show ?thesis by simp
  next
    case False
    show ?thesis
    proof (cases "version k \<in> set keep")
      case True
      with False Cons.prems Cons.IH[of keep keep'] show ?thesis by simp
    next
      case notin: False
      with False Cons.prems Cons.IH[of "keep @ [version k]" "keep' @ [version k]"]
      show ?thesis by simp
    qed
  qed
qed

lemma min_kernels_loop_mono:
  assumes "m \<le> m'"
  shows "set (min_kernels_loop m ks keep) \<subseteq> set (min_kernels_loop m' ks keep)"
proof (induction ks arbitrary: keep)
  case Nil
  show ?case by simp
next
  case (Cons k ks)
  show ?case
  proof (cases "m' \<le> int (length keep)")
    case True
    with assms show ?thesis by simp
  next
    case False
    show ?thesis
    proof (cases "m \<le> int (length keep)")
      case True
      then have "min_kernels_loop m (k # ks) keep = keep" by simp
      then show ?thesis using min_kernels_loop_grows[of keep m' "k # ks"] by simp
    next
      case notyet: False
      with False Cons.IH show ?thesis by simp
    qed
  qed
qed

text \<open>One keep list against another that holds one version more.\<close>

lemma keep_days_rule_one_more:
  assumes "(set a = set b \<and> length a = length b)
           \<or> (x \<notin> set a \<and> set b = insert x (set a) \<and> length b = Suc (length a))"
  shows "(set (keep_days_rule lib c infos a) = set (keep_days_rule lib c infos b)
            \<and> length (keep_days_rule lib c infos a) = length (keep_days_rule lib c infos b))
         \<or> (x \<notin> set (keep_days_rule lib c infos a)
            \<and> set (keep_days_rule lib c infos b) = insert x (set (keep_days_rule lib c infos a))
            \<and> length (keep_days_rule lib c infos b) = Suc (length (keep_days_rule lib c infos a)))"
  using assms
proof (induction infos arbitrary: a b)
  case Nil
  then show ?case by (simp add: keep_days_rule_def)
next
  case (Cons k ks)
  let ?f = "\<lambda>k keep. if install_date k \<noteq> ''Unknown'' then
              (case strptime lib (install_date k) of
                 None \<Rightarrow> keep
               | Some d \<Rightarrow> if d > c \<and> version k \<notin> set keep then keep @ [version k] else keep)
            else keep"
  have step: "(set (?f k a) = set (?f k b) \<and> length (?f k a) = length (?f k b))
           \<or> (x \<notin> set (?f k a) \<and> set (?f k b) = insert x (set (?f k a))
               \<and> length (?f k b) = Suc (length (?f k a)))"
    using Cons.prems by (auto split: option.splits)
  have unf: "keep_days_rule lib c (k # ks) keep = keep_days_rule lib c ks (?f k keep)" for keep
    by (simp add: keep_days_rule_def)
  show ?case unfolding unf by (rule Cons.IH[OF step])
qed

lemma min_kernels_loop_one_more:
  assumes pre: "\<forall>j \<in> set pre. version j \<in> set a"
    and x: "version k \<notin> set a"
    and b: "set b = insert (version k) (set a)" "length b = Suc (length a)"
  shows "set (min_kernels_loop m (pre @ k # rest) a) \<subseteq> set (min_kernels_loop m (pre @ k # rest) b)"
proof -
  from pre b have pre': "\<forall>j \<in> set pre. version j \<in> set b" by auto
  have A: "min_kernels_loop m (pre @ k # rest) a = min_kernels_loop m (k # rest) a"
    by (rule min_kernels_loop_skip[OF pre])
  have B: "min_kernels_loop m (pre @ k # rest) b = min_kernels_loop m (k # rest) b"
    by (rule min_kernels_loop_skip[OF pre'])
  show ?thesis
  proof (cases "m \<le> int (length a)")
    case True
    then have "min_kernels_loop m (k # rest) a = a" by simp
    moreover have "set a \<subseteq> set b" using b by auto
    moreover have "set b \<subseteq> set (min_kernels_loop m (k # rest) b)" by (rule min_kernels_loop_grows)
    ultimately show ?thesis unfolding A B by auto
  next
    case False
    with x have a': "min_kernels_loop m (k # rest) a = min_kernels_loop m rest (a @ [version k])"
      by simp
    have same: "set (a @ [version k]) = set b" "length (a @ [version k]) = length b"
      using b by auto
    have b': "min_kernels_loop m (k # rest) b = min_kernels_loop m rest b"
    proof (cases "m \<le> int (length b)")
      case True
      then show ?thesis by (simp add: min_kernels_loop_enough)
    next
      case False
      with b show ?thesis by simp
    qed
    show ?thesis unfolding A B a' b'
      using min_kernels_loop_cong[OF same] by simp
  qed
qed

lemma latest_fold_has:
  "i < n \<Longrightarrow>
   version (infos ! i) \<in> set (fold (\<lambda>i keep. if version (infos ! i) \<notin> set keep
                                          then keep @ [version (infos ! i)] else keep) [0 ..< n] keep)"
proof (induction n)
  case 0
  then show ?case by simp
next
  case (Suc n)
  show ?case
  proof (cases "i < n")
    case True
    with Suc.IH show ?thesis by auto
  next
    case False
    with Suc.prems have "i = n" by simp
    then show ?thesis by auto
  qed
qed

lemma latest_step_mono:
  fixes D :: "string list \<Rightarrow> string list"
  assumes D_rel: "\<And>a b x. (set a = set b \<and> length a = length b)
                     \<or> (x \<notin> set a \<and> set b = insert x (set a) \<and> length b = Suc (length a))
                   \<Longrightarrow> (set (D a) = set (D b) \<and> length (D a) = length (D b))
                     \<or> (x \<notin> set (D a) \<and> set (D b) = insert x (set (D a))
                         \<and> length (D b) = Suc (length (D a)))"
    and D_grows: "\<And>a. set a \<subseteq> set (D a)"
    and n: "n < length infos"
  shows "set (min_kernels_loop m infos
            (D (fold (\<lambda>i keep. if version (infos ! i) \<notin> set keep
                                then keep @ [version (infos ! i)] else keep) [0 ..< n] keep0)))
         \<subseteq> set (min_kernels_loop m infos
            (D (fold (\<lambda>i keep. if version (infos ! i) \<notin> set keep
                                then keep @ [version (infos ! i)] else keep) [0 ..< Suc n] keep0)))"
proof -
  let ?step = "\<lambda>i keep. if version (infos ! i) \<notin> set keep
                          then keep @ [version (infos ! i)] else keep"
  let ?a = "fold ?step [0 ..< n] keep0"
  let ?x = "version (infos ! n)"
  have b: "fold ?step [0 ..< Suc n] keep0 = ?step n ?a" by simp
  show ?thesis
  proof (cases "?x \<in> set ?a")
    case True
    then show ?thesis unfolding b by simp
  next
    case False
    then have b': "fold ?step [0 ..< Suc n] keep0 = ?a @ [?x]" unfolding b by simp
    have "(set ?a = set (?a @ [?x]) \<and> length ?a = length (?a @ [?x]))
          \<or> (?x \<notin> set ?a \<and> set (?a @ [?x]) = insert ?x (set ?a)
              \<and> length (?a @ [?x]) = Suc (length ?a))"
      using False by simp
    from D_rel[OF this] consider
      (same) "set (D ?a) = set (D (?a @ [?x]))" "length (D ?a) = length (D (?a @ [?x]))"
      | (more) "?x \<notin> set (D ?a)" "set (D (?a @ [?x])) = insert ?x (set (D ?a))"
          "length (D (?a @ [?x])) = Suc (length (D ?a))"
      by blast
    then show ?thesis
    proof cases
      case same
      from min_kernels_loop_cong[OF same] show ?thesis unfolding b' by simp
    next
      case more
      have split: "infos = take n infos @ infos ! n # drop (Suc n) infos"
        using n by (rule id_take_nth_drop)
      have pre: "\<forall>j \<in> set (take n infos). version j \<in> set (D ?a)"
      proof
        fix j assume "j \<in> set (take n infos)"
        then obtain i where i: "i < n" "j = infos ! i"
          using n by (auto simp: in_set_conv_nth)
        from latest_fold_has[OF i(1), of infos keep0] i(2) D_grows[of ?a]
        show "version j \<in> set (D ?a)" by auto
      qed
      have "set (min_kernels_loop m (take n infos @ infos ! n # drop (Suc n) infos) (D ?a))
            \<subseteq> set (min_kernels_loop m (take n infos @ infos ! n # drop (Suc n) infos)
                      (D (?a @ [?x])))"
        by (rule min_kernels_loop_one_more[OF pre more])
      then show ?thesis unfolding b' using split by simp
    qed
  qed
qed

lemma latest_mono:
  fixes D :: "string list \<Rightarrow> string list"
  assumes D_rel: "\<And>a b x. (set a = set b \<and> length a = length b)
                     \<or> (x \<notin> set a \<and> set b = insert x (set a) \<and> length b = Suc (length a))
                   \<Longrightarrow> (set (D a) = set (D b) \<and> length (D a) = length (D b))
                     \<or> (x \<notin> set (D a) \<and> set (D b) = insert x (set (D a))
                         \<and> length (D b) = Suc (length (D a)))"
    and D_grows: "\<And>a. set a \<subseteq> set (D a)"
    and le: "n \<le> n'" and n': "n' \<le> length infos"
  shows "set (min_kernels_loop m infos
            (D (fold (\<lambda>i keep. if version (infos ! i) \<notin> set keep
                                then keep @ [version (infos ! i)] else keep) [0 ..< n] keep0)))
         \<subseteq> set (min_kernels_loop m infos
            (D (fold (\<lambda>i keep. if version (infos ! i) \<notin> set keep
                                then keep @ [version (infos ! i)] else keep) [0 ..< n'] keep0)))"
  using le n'
proof (induction n' rule: dec_induct)
  case base
  show ?case by simp
next
  case (step k)
  from step.prems have "k < length infos" by simp
  from latest_step_mono[of D, OF D_rel D_grows this, of m keep0] step.IH step.prems
  show ?case by auto
qed

lemma keep_latest_rule_mono:
  fixes D :: "string list \<Rightarrow> string list"
  assumes D_rel: "\<And>a b x. (set a = set b \<and> length a = length b)
                     \<or> (x \<notin> set a \<and> set b = insert x (set a) \<and> length b = Suc (length a))
                   \<Longrightarrow> (set (D a) = set (D b) \<and> length (D a) = length (D b))
                     \<or> (x \<notin> set (D a) \<and> set (D b) = insert x (set (D a))
                         \<and> length (D b) = Suc (length (D a)))"
    and D_grows: "\<And>a. set a \<subseteq> set (D a)"
    and le: "keep_latest p \<le> keep_latest p'"
  shows "set (min_kernels_loop m infos (D (keep_latest_rule p infos keep0)))
         \<subseteq> set (min_kernels_loop m infos (D (keep_latest_rule p' infos keep0)))"
proof -
  have n: "nat (min (min (keep_latest p) (int (length infos))) (int (length infos)))
           \<le> nat (min (min (keep_latest p') (int (length infos))) (int (length infos)))"
    using le by simp
  have n': "nat (min (min (keep_latest p') (int (length infos))) (int (length infos)))
            \<le> length infos" by simp
  show ?thesis
    unfolding keep_latest_rule_def Let_def
    by (rule latest_mono[of D, OF D_rel D_grows n n'])
qed

lemma set_keep_days_rule:
  "set (keep_days_rule lib c infos keep) =
     set keep \<union> {v. \<exists>k d. k \<in> set infos \<and> v = version k \<and> install_date k \<noteq> ''Unknown''
                        \<and> strptime lib (install_date k) = Some d \<and> c < d}"
proof (induction infos arbitrary: keep)
  case Nil
  show ?case by (simp add: keep_days_rule_def)
next
  case (Cons k ks)
  let ?f = "\<lambda>k keep. if install_date k \<noteq> ''Unknown'' then
              (case strptime lib (install_date k) of
                 None \<Rightarrow> keep
               | Some d \<Rightarrow> if d > c \<and> version k \<notin> set keep then keep @ [version k] else keep)
            else keep"
  have unf: "keep_days_rule lib c (k # ks) keep = keep_days_rule lib c ks (?f k keep)"
    by (simp add: keep_days_rule_def)
  show ?case unfolding unf Cons.IH
    by (auto split: option.splits)
qed

lemma cutoff_date_eq:
  "cutoff_date sys p = Inr c \<Longrightarrow> c = now sys - keep_days p * 86400000000"
  by (auto simp: cutoff_date_def timedelta_days_def datetime_sub_def Let_def split: if_splits)

lemma keep_kernels_cases:
  assumes "keep_kernels self sys lib p = Inr keep"
  obtains (days) c where "0 < keep_days p" "cutoff_date sys p = Inr c"
      "keep_before_min self sys lib p =
         Inr (keep_days_rule lib c (kernels_info self sys lib)
                (keep_before_days self p (kernels_info self sys lib)))"
      "keep = min_kernels_loop (min_kernels p) (kernels_info self sys lib)
                (keep_days_rule lib c (kernels_info self sys lib)
                   (keep_before_days self p (kernels_info self sys lib)))"
    | (nodays) "\<not> 0 < keep_days p"
      "keep_before_min self sys lib p = Inr (keep_before_days self p (kernels_info self sys lib))"
      "keep = min_kernels_loop (min_kernels p) (kernels_info self sys lib)
                (keep_before_days self p (kernels_info self sys lib))"
  using assms
  by (auto simp: keep_kernels_def keep_before_min_def Let_def min_kernels_rule_loop
           split: if_splits sum.splits)

lemma keep_latest_monotone:
  assumes k: "keep_kernels self sys lib p = Inr keep"
    and le: "keep_latest p \<le> n"
  shows "\<exists>keep'. keep_kernels self sys lib (p\<lparr>keep_latest := n\<rparr>) = Inr keep'
                \<and> set keep \<subseteq> set keep'"
proof -
  let ?infos = "kernels_info self sys lib"
  let ?p' = "p\<lparr>keep_latest := n\<rparr>"
  let ?k3 = "keep_fallback_rule self p (keep_current_rule p ?infos [])"
  have k3: "keep_fallback_rule self ?p' (keep_current_rule ?p' ?infos []) = ?k3"
    by (simp add: keep_fallback_rule_def keep_current_rule_def)
  have le': "keep_latest p \<le> keep_latest ?p'" using le by simp
  have cut: "cutoff_date sys ?p' = cutoff_date sys p" by (simp add: cutoff_date_def)
  from k show ?thesis
  proof (cases rule: keep_kernels_cases)
    case (days c)
    have "set (min_kernels_loop (min_kernels p) ?infos
                 (keep_days_rule lib c ?infos (keep_latest_rule p ?infos ?k3)))
          \<subseteq> set (min_kernels_loop (min_kernels p) ?infos
                 (keep_days_rule lib c ?infos (keep_latest_rule ?p' ?infos ?k3)))"
      by (rule keep_latest_rule_mono[of "keep_days_rule lib c ?infos",
            OF keep_days_rule_one_more keep_days_rule_grows le'])
    with days show ?thesis
      by (simp add: keep_kernels_def keep_before_min_def Let_def min_kernels_rule_loop
            keep_before_days_def k3 cut)
  next
    case nodays
    have "set (min_kernels_loop (min_kernels p) ?infos
                 ((\<lambda>a. a) (keep_latest_rule p ?infos ?k3)))
          \<subseteq> set (min_kernels_loop (min_kernels p) ?infos
                 ((\<lambda>a. a) (keep_latest_rule ?p' ?infos ?k3)))"
      by (rule keep_latest_rule_mono[of "\<lambda>a. a", OF _ _ le']) auto
    with nodays show ?thesis
      by (simp add: keep_kernels_def keep_before_min_def Let_def min_kernels_rule_loop
            keep_before_days_def k3)
  qed
qed

lemma min_kernels_monotone:
  assumes k: "keep_kernels self sys lib p = Inr keep"
    and le: "min_kernels p \<le> m"
  shows "\<exists>keep'. keep_kernels self sys lib (p\<lparr>min_kernels := m\<rparr>) = Inr keep'
                \<and> set keep \<subseteq> set keep'"
proof -
  let ?infos = "kernels_info self sys lib"
  let ?p' = "p\<lparr>min_kernels := m\<rparr>"
  have cut: "cutoff_date sys ?p' = cutoff_date sys p" by (simp add: cutoff_date_def)
  have b4: "keep_before_days self ?p' ?infos = keep_before_days self p ?infos"
    by (simp add: keep_before_days_def keep_fallback_rule_def keep_current_rule_def
          keep_latest_rule_def)
  have b: "keep_before_min self sys lib ?p' = keep_before_min self sys lib p"
    unfolding keep_before_min_def Let_def b4 cut by simp
  from k obtain before where bm: "keep_before_min self sys lib p = Inr before"
    and keep: "keep = min_kernels_loop (min_kernels p) ?infos before"
    by (auto simp: keep_kernels_def min_kernels_rule_loop split: sum.splits)
  have "keep_kernels self sys lib ?p' = Inr (min_kernels_loop m ?infos before)"
    by (simp add: keep_kernels_def b bm min_kernels_rule_loop)
  moreover have "set keep \<subseteq> set (min_kernels_loop m ?infos before)"
    unfolding keep by (rule min_kernels_loop_mono[OF le])
  ultimately show ?thesis by blast
qed

lemma keep_days_monotone:
  assumes k: "keep_kernels self sys lib p = Inr keep"
    and k': "keep_kernels self sys lib (p\<lparr>keep_days := d\<rparr>) = Inr keep'"
    and le: "keep_days p \<le> d"
  shows "\<exists>before before'.
           keep_before_min self sys lib p = Inr before
           \<and> keep_before_min self sys lib (p\<lparr>keep_days := d\<rparr>) = Inr before'
           \<and> set before \<subseteq> set before'
           \<and> (min_kernels p \<le> int (length before) \<longrightarrow> set keep \<subseteq> set keep')"
proof -
  let ?infos = "kernels_info self sys lib"
  let ?p' = "p\<lparr>keep_days := d\<rparr>"
  have b4: "keep_before_days self ?p' ?infos = keep_before_days self p ?infos"
    by (simp add: keep_before_days_def keep_fallback_rule_def keep_current_rule_def
          keep_latest_rule_def)
  from k obtain before where bm: "keep_before_min self sys lib p = Inr before"
    and keep: "keep = min_kernels_loop (min_kernels p) ?infos before"
    by (auto simp: keep_kernels_def min_kernels_rule_loop split: sum.splits)
  from k' obtain before' where bm': "keep_before_min self sys lib ?p' = Inr before'"
    and keep': "keep' = min_kernels_loop (min_kernels p) ?infos before'"
    by (auto simp: keep_kernels_def min_kernels_rule_loop split: sum.splits)
  have sub: "set before \<subseteq> set before'"
  proof (cases "0 < keep_days p")
    case True
    with le have d: "0 < d" by simp
    from bm True obtain c where c: "cutoff_date sys p = Inr c"
      and before: "before = keep_days_rule lib c ?infos (keep_before_days self p ?infos)"
      by (auto simp: keep_before_min_def Let_def split: sum.splits)
    from bm' d obtain c' where c': "cutoff_date sys ?p' = Inr c'"
      and before': "before' = keep_days_rule lib c' ?infos (keep_before_days self p ?infos)"
      by (auto simp: keep_before_min_def Let_def b4 split: sum.splits)
    from cutoff_date_eq[OF c] cutoff_date_eq[OF c'] le have "c' \<le> c" by simp
    then show ?thesis unfolding before before' set_keep_days_rule by fastforce
  next
    case False
    with bm have before: "before = keep_before_days self p ?infos"
      by (auto simp: keep_before_min_def Let_def)
    from bm' have "set (keep_before_days self p ?infos) \<subseteq> set before'"
      using keep_before_min_grows[OF bm'] by (simp add: b4)
    with before show ?thesis by simp
  qed
  have "set keep \<subseteq> set keep'" if "min_kernels p \<le> int (length before)"
  proof -
    from that have "keep = before" unfolding keep by (rule min_kernels_loop_enough)
    with sub min_kernels_loop_grows[of before' "min_kernels p" ?infos] keep'
    show ?thesis by auto
  qed
  with bm bm' sub show ?thesis by blast
qed

text \<open>
  C9, as amended. With the host, the manager and the clock fixed: raising
  \<open>keep_latest\<close> or raising \<open>min_kernels\<close> never takes a version out of the keep list
  (and the call returns whenever the first one did). Raising \<open>keep_days\<close> never takes
  a version out of the keep list as it stands before the \<open>min_kernels\<close> step, and never
  out of the final keep list when that earlier list already holds \<open>min_kernels\<close> entries
  under the smaller \<open>keep_days\<close>.
\<close>

theorem keep_monotone:
  assumes "keep_kernels self sys lib p = Inr keep"
  shows "(keep_latest p \<le> n \<longrightarrow>
            (\<exists>keep'. keep_kernels self sys lib (p\<lparr>keep_latest := n\<rparr>) = Inr keep'
                     \<and> set keep \<subseteq> set keep'))
       \<and> (min_kernels p \<le> m \<longrightarrow>
            (\<exists>keep'. keep_kernels self sys lib (p\<lparr>min_kernels := m\<rparr>) = Inr keep'
                     \<and> set keep \<subseteq> set keep'))
       \<and> (keep_days p \<le> d \<longrightarrow>
            (\<forall>keep'. keep_kernels self sys lib (p\<lparr>keep_days := d\<rparr>) = Inr keep' \<longrightarrow>
               (\<exists>before before'.
                  keep_before_min self sys lib p = Inr before
                  \<and> keep_before_min self sys lib (p\<lparr>keep_days := d\<rparr>) = Inr before'
                  \<and> set before \<subseteq> set before'
                  \<and> (min_kernels p \<le> int (length before) \<longrightarrow> set keep \<subseteq> set keep'))))"
  using keep_latest_monotone[OF assms] min_kernels_monotone[OF assms]
    keep_days_monotone[OF assms]
  by blast

theorem keep_monotone_witness:
  "keep_kernels (init host_dated) host_dated py_datetime
     \<lparr>keep_latest = 1, keep_days = 1, dry_run = False, exclude_current = False,
      exclude_fallback = False, min_kernels = 1\<rparr> = Inr [''6.1.0'']
   \<and> (\<exists>keep'. keep_kernels (init host_dated) host_dated py_datetime
                  \<lparr>keep_latest = 2, keep_days = 1, dry_run = False, exclude_current = False,
                   exclude_fallback = False, min_kernels = 1\<rparr> = Inr keep'
               \<and> set [''6.1.0''] \<subseteq> set keep')
   \<and> (\<exists>keep'. keep_kernels (init host_dated) host_dated py_datetime
                  \<lparr>keep_latest = 1, keep_days = 1, dry_run = False, exclude_current = False,
                   exclude_fallback = False, min_kernels = 2\<rparr> = Inr keep'
               \<and> set [''6.1.0''] \<subseteq> set keep')
   \<and> keep_kernels (init host_dated) host_dated py_datetime
         \<lparr>keep_latest = 1, keep_days = 10, dry_run = False, exclude_current = False,
          exclude_fallback = False, min_kernels = 1\<rparr> = Inr [''6.1.0'', ''5.19.2'']
   \<and> (\<exists>before before'.
          keep_before_min (init host_dated) host_dated py_datetime
            \<lparr>keep_latest = 1, keep_days = 1, dry_run = False, exclude_current = False,
             exclude_fallback = False, min_kernels = 1\<rparr> = Inr before
          \<and> keep_before_min (init host_dated) host_dated py_datetime
            \<lparr>keep_latest = 1, keep_days = 10, dry_run = False, exclude_current = False,
             exclude_fallback = False, min_kernels = 1\<rparr> = Inr before'
          \<and> 1 \<le> int (length before)
          \<and> set before \<subseteq> set before'
          \<and> set [''6.1.0''] \<subseteq> set [''6.1.0'', ''5.19.2''])"
proof -
  let ?p = "\<lparr>keep_latest = 1, keep_days = 1, dry_run = False, exclude_current = False,
             exclude_fallback = False, min_kernels = 1\<rparr>"
  have e: "keep_kernels (init host_dated) host_dated py_datetime ?p = Inr [''6.1.0'']"
    by code_simp
  have e10: "keep_kernels (init host_dated) host_dated py_datetime (?p\<lparr>keep_days := 10\<rparr>)
             = Inr [''6.1.0'', ''5.19.2'']"
    by code_simp
  have b: "keep_before_min (init host_dated) host_dated py_datetime ?p = Inr [''6.1.0'']"
    by code_simp
  from keep_monotone[OF e, of 2 2 10] e e10 b show ?thesis
    by simp
qed

text \<open>
  Raising \<open>keep_days\<close> alone can shrink the final keep list: with one day the rule
  protects nothing and the \<open>min_kernels\<close> step keeps the newest kernel; with ten days
  the rule protects the kernel installed five days ago, the floor of one is met, and
  the newest kernel is not kept any more.
\<close>

theorem keep_days_not_monotone:
  "keep_kernels (init host_dated) host_dated py_datetime
     \<lparr>keep_latest = 0, keep_days = 1, dry_run = False, exclude_current = False,
      exclude_fallback = False, min_kernels = 1\<rparr> = Inr [''6.1.0'']
   \<and> keep_kernels (init host_dated) host_dated py_datetime
     \<lparr>keep_latest = 0, keep_days = 10, dry_run = False, exclude_current = False,
      exclude_fallback = False, min_kernels = 1\<rparr> = Inr [''5.19.2'']
   \<and> \<not> set [''6.1.0''] \<subseteq> set [''5.19.2'']"
proof -
  have a: "keep_kernels (init host_dated) host_dated py_datetime
     \<lparr>keep_latest = 0, keep_days = 1, dry_run = False, exclude_current = False,
      exclude_fallback = False, min_kernels = 1\<rparr> = Inr [''6.1.0'']"
    by code_simp
  have b: "keep_kernels (init host_dated) host_dated py_datetime
     \<lparr>keep_latest = 0, keep_days = 10, dry_run = False, exclude_current = False,
      exclude_fallback = False, min_kernels = 1\<rparr> = Inr [''5.19.2'']"
    by code_simp
  show ?thesis using a b by simp
qed

subsection \<open>Install dates and the order of the catalog\<close>

lemma distinct_parse_line: "distinct kernels \<Longrightarrow> distinct (parse_line line kernels)"
  by (simp add: parse_line_def Let_def)

lemma distinct_fold_parse_line:
  "distinct kernels \<Longrightarrow> distinct (fold parse_line lines kernels)"
  by (induction lines arbitrary: kernels) (simp_all add: distinct_parse_line)

lemma distinct_list_installed_kernels: "distinct (list_installed_kernels sys)"
  by (simp add: list_installed_kernels_def sort_reverse_def distinct_fold_parse_line
        split: option.splits)

lemma kernels_info_version_inj:
  assumes "k \<in> set (kernels_info self sys lib)" and "k' \<in> set (kernels_info self sys lib)"
    and "version k = version k'"
  shows "k = k'"
proof -
  have "j = get_kernel_info self sys lib (version j)" if "j \<in> set (kernels_info self sys lib)" for j
    using that by (auto simp: kernels_info_def get_kernel_info_def)
  from this[OF assms(1)] this[OF assms(2)] assms(3) show ?thesis by simp
qed

text \<open>
  C8. A record of the catalog whose install date is the text \<^verbatim>\<open>Unknown\<close> or a text
  that \<open>strptime\<close> rejects (the empty text of a missing date among them) is never
  added by the rule of the last \<open>keep_days\<close> days: for every cutoff and every keep list,
  its version is in the list after the rule only if it was in it before. So its version
  is kept before the \<open>min_kernels\<close> step only if the exclusions or the rule of the
  latest kernels kept it.
\<close>

theorem unknown_install_date_not_kept_by_days_rule:
  assumes k: "k \<in> set (kernels_info self sys lib)"
    and unknown: "install_date k = ''Unknown'' \<or> strptime lib (install_date k) = None"
  shows "(version k \<in> set (keep_days_rule lib cutoff (kernels_info self sys lib) keep)
            \<longleftrightarrow> version k \<in> set keep)
       \<and> (keep_before_min self sys lib policy = Inr before \<longrightarrow>
            (version k \<in> set before
               \<longleftrightarrow> version k \<in> set (keep_before_days self policy (kernels_info self sys lib))))"
proof -
  let ?infos = "kernels_info self sys lib"
  have rule: "version k \<in> set (keep_days_rule lib c ?infos kp) \<longleftrightarrow> version k \<in> set kp"
    for c kp
  proof
    assume "version k \<in> set (keep_days_rule lib c ?infos kp)"
    then consider "version k \<in> set kp"
      | k' d where "k' \<in> set ?infos" "version k = version k'"
          "install_date k' \<noteq> ''Unknown''" "strptime lib (install_date k') = Some d"
      unfolding set_keep_days_rule by blast
    then show "version k \<in> set kp"
    proof cases
      case 1
      then show ?thesis .
    next
      case 2
      from kernels_info_version_inj[OF k 2(1) 2(2)] have "k = k'" .
      with 2(3,4) unknown show ?thesis by simp
    qed
  next
    assume "version k \<in> set kp"
    then show "version k \<in> set (keep_days_rule lib c ?infos kp)"
      using keep_days_rule_grows by blast
  qed
  have "version k \<in> set before \<longleftrightarrow> version k \<in> set (keep_before_days self policy ?infos)"
    if "keep_before_min self sys lib policy = Inr before"
    using that rule
    by (auto simp: keep_before_min_def Let_def split: if_splits sum.splits)
  with rule show ?thesis by blast
qed

theorem unknown_install_date_not_kept_by_days_rule_witness:
  "\<lparr>version = ''5.19.2'', is_current = False, install_date = [],
     size_text = ''N/A'', is_fallback = False\<rparr>
     \<in> set (kernels_info (init host_five) host_five py_datetime)
   \<and> strptime py_datetime [] = None
   \<and> 0 < keep_days default_policy
   \<and> keep_before_min (init host_five) host_five py_datetime default_policy
       = Inr [''6.1.0'', ''6.0.5'']
   \<and> ''5.19.2'' \<notin> set (keep_before_days (init host_five) default_policy
                          (kernels_info (init host_five) host_five py_datetime))"
proof -
  let ?k = "\<lparr>version = ''5.19.2'', is_current = False, install_date = [],
     size_text = ''N/A'', is_fallback = False\<rparr>"
  have k: "?k \<in> set (kernels_info (init host_five) host_five py_datetime)"
    by code_simp
  have u: "install_date ?k = ''Unknown'' \<or> strptime py_datetime (install_date ?k) = None"
    by (simp add: py_datetime_def)
  have b: "keep_before_min (init host_five) host_five py_datetime default_policy
       = Inr [''6.1.0'', ''6.0.5'']"
    by code_simp
  from unknown_install_date_not_kept_by_days_rule[OF k u, of 0 "[]" default_policy
      "[''6.1.0'', ''6.0.5'']"] k b
  show ?thesis by (simp add: py_datetime_def default_policy_def)
qed

lemma list_less_iff:
  fixes xs ys :: "int list"
  shows "xs < ys \<longleftrightarrow> (\<exists>a v. ys = xs @ a # v)
                       \<or> (\<exists>u a b v w. a < b \<and> xs = u @ a # v \<and> ys = u @ b # w)"
  by (auto simp: list_less_def lexord_def)

lemma sort_reverse_sorted:
  "sorted_wrt (\<lambda>a b. f b \<le> f a) (sort_reverse f xs)"
proof -
  have "sorted (map f (sort_key f (rev xs)))" by simp
  then have "sorted_wrt (\<lambda>a b. f a \<le> f b) (sort_key f (rev xs))"
    by (simp add: sorted_map)
  then show ?thesis
    by (simp add: sort_reverse_def sorted_wrt_rev)
qed

lemma sort_reverse_stable:
  "filter (\<lambda>x. f x = k) (sort_reverse f xs) = filter (\<lambda>x. f x = k) xs"
  by (simp add: sort_reverse_def sort_key_stable flip: rev_filter)

lemma mset_sort_reverse: "mset (sort_reverse f xs) = mset xs"
  by (simp add: sort_reverse_def)

text \<open>
  C7. When \<^verbatim>\<open>dpkg -l\<close> can be read, \<open>list_installed_kernels\<close> returns the versions
  parsed from it, rearranged so that the keys never increase (newest first), where the
  key of a version is the list of the numbers in its text; versions with the same key
  keep the order of the listing. Keys are compared number by number from the left: a key
  is smaller than another when it is a proper prefix of it or holds the smaller number
  at the first place where they differ.
\<close>

theorem list_installed_kernels_order:
  assumes "dpkg_l sys = Some lines"
  shows "sorted_wrt (\<lambda>a b. version_key b \<le> version_key a) (list_installed_kernels sys)
       \<and> mset (list_installed_kernels sys) = mset (fold parse_line lines [])
       \<and> filter (\<lambda>x. version_key x = key) (list_installed_kernels sys)
           = filter (\<lambda>x. version_key x = key) (fold parse_line lines [])
       \<and> (version_key a < version_key b \<longleftrightarrow>
            (\<exists>n rest. version_key b = version_key a @ n # rest)
            \<or> (\<exists>u n n' v w. n < n' \<and> version_key a = u @ n # v \<and> version_key b = u @ n' # w))"
  using assms
  by (simp add: list_installed_kernels_def sort_reverse_sorted sort_reverse_stable
        mset_sort_reverse list_less_iff)

theorem list_installed_kernels_order_witness:
  "dpkg_l host_versions = Some [''ii  linux-image-5.9.0 5.9.0-1 amd64 Linux'',
                                ''ii  linux-image-5.10.0-b 5.10.0-1 amd64 Linux'',
                                ''ii  linux-image-5.10.0-a 5.10.0-1 amd64 Linux'']
   \<and> list_installed_kernels host_versions = [''5.10.0-b'', ''5.10.0-a'', ''5.9.0'']
   \<and> version_key ''5.10.0-b'' = [5, 10, 0]
   \<and> sorted_wrt (\<lambda>a b. version_key b \<le> version_key a) [''5.10.0-b'', ''5.10.0-a'', ''5.9.0'']
   \<and> filter (\<lambda>x. version_key x = [5, 10, 0]) [''5.10.0-b'', ''5.10.0-a'', ''5.9.0'']
       = filter (\<lambda>x. version_key x = [5, 10, 0])
           (fold parse_line [''ii  linux-image-5.9.0 5.9.0-1 amd64 Linux'',
                             ''ii  linux-image-5.10.0-b 5.10.0-1 amd64 Linux'',
                             ''ii  linux-image-5.10.0-a 5.10.0-1 amd64 Linux''] [])"
proof -
  have d: "dpkg_l host_versions = Some [''ii  linux-image-5.9.0 5.9.0-1 amd64 Linux'',
                                ''ii  linux-image-5.10.0-b 5.10.0-1 amd64 Linux'',
                                ''ii  linux-image-5.10.0-a 5.10.0-1 amd64 Linux'']"
    by (simp add: host_versions_def)
  have l: "list_installed_kernels host_versions = [''5.10.0-b'', ''5.10.0-a'', ''5.9.0'']"
    by code_simp
  have v: "version_key ''5.10.0-b'' = [5, 10, 0]" by code_simp
  from list_installed_kernels_order[OF d, of "[5, 10, 0]"] d l v show ?thesis
    by simp
qed

subsection \<open>Failures of the removal\<close>








subsection \<open>The fallback kernel in the keep list\<close>

lemma keep_fallback_rule_in:
  assumes "exclude_fallback policy" and "fallback_kernel self \<noteq> []"
    and "keep_kernels self sys lib policy = Inr kept"
  shows "fallback_kernel self \<in> set kept"
proof -
  have "fallback_kernel self \<in> set (keep_fallback_rule self policy
          (keep_current_rule policy (kernels_info self sys lib) []))"
    using assms(1,2) by (simp add: keep_fallback_rule_def)
  then have "fallback_kernel self \<in> set (keep_before_days self policy (kernels_info self sys lib))"
    unfolding keep_before_days_def using keep_latest_rule_grows by blast
  with keep_kernels_grows[OF assms(3)] show ?thesis by blast
qed

lemma foreign_keep:
  "keep_kernels (init host_foreign) host_foreign py_datetime (default_policy\<lparr>keep_latest := 0\<rparr>)
     = Inr [''6.1.0-custom'']"
  by code_simp

lemma foreign_list: "list_installed_kernels host_foreign = [''5.10.0'']"
  by code_simp

lemma foreign_remove:
  "identify_kernels_to_remove (init host_foreign) host_foreign py_datetime
     (default_policy\<lparr>keep_latest := 0\<rparr>)
   = Inr [\<lparr>version = ''5.10.0'', is_current = False, install_date = [],
           size_text = ''N/A'', is_fallback = False\<rparr>]"
  by code_simp

lemma foreign_infos:
  "kernels_info (init host_foreign) host_foreign py_datetime
   = [\<lparr>version = ''5.10.0'', is_current = False, install_date = [],
           size_text = ''N/A'', is_fallback = False\<rparr>]"
  by code_simp

lemma rebooting_keep:
  "keep_kernels (init host_rebooting) host_rebooting py_datetime default_policy
     = Inr [''6.0.5'', ''6.0.5'', ''6.1.0'']"
  by code_simp

lemma policy_facts:
  "exclude_fallback (default_policy\<lparr>keep_latest := 0\<rparr>)"
  "min_kernels (default_policy\<lparr>keep_latest := 0\<rparr>) = 1"
  "min_kernels (default_policy\<lparr>min_kernels := 3\<rparr>) = 3"
  "keep_latest default_policy = 2"
  by (simp_all add: default_policy_def)

text \<open>
  C10. With \<open>exclude_fallback\<close> set and a fallback that is not the empty text, the rule
  of the fallback kernel appends the manager's fallback to the keep list as it is, looking
  neither at the catalog nor at the list, so the fallback is in the final keep list
  whenever the call returns. A manager started on a host with fewer than two kernels
  listed holds the running kernel's name as its fallback. There is a host and a policy
  with \<open>min_kernels = 1\<close> where the keep list holds a version that no record of the
  catalog has, that entry alone meets the floor, and the whole catalog is returned for
  removal; and there is a host where the keep list holds a version twice.
\<close>

theorem fallback_kept_unchecked:
  "(exclude_fallback policy \<and> fallback_kernel self \<noteq> [] \<longrightarrow>
      keep_fallback_rule self policy keep = keep @ [fallback_kernel self])
   \<and> (exclude_fallback policy \<and> fallback_kernel self \<noteq> []
        \<and> keep_kernels self sys lib policy = Inr kept \<longrightarrow> fallback_kernel self \<in> set kept)
   \<and> (length (list_installed_kernels sys') < 2 \<longrightarrow>
        fallback_kernel (init sys') = get_current_kernel sys')
   \<and> (\<exists>host lib policy kept.
         exclude_fallback policy \<and> min_kernels policy = 1
         \<and> keep_kernels (init host) host lib policy = Inr kept
         \<and> (\<exists>v \<in> set kept. v \<notin> set (list_installed_kernels host))
         \<and> list_installed_kernels host \<noteq> []
         \<and> identify_kernels_to_remove (init host) host lib policy
             = Inr (kernels_info (init host) host lib))
   \<and> (\<exists>host lib policy kept.
         keep_kernels (init host) host lib policy = Inr kept \<and> \<not> distinct kept)"
proof -
  have a: "exclude_fallback policy \<and> fallback_kernel self \<noteq> [] \<longrightarrow>
      keep_fallback_rule self policy keep = keep @ [fallback_kernel self]"
    by (simp add: keep_fallback_rule_def)
  have b: "exclude_fallback policy \<and> fallback_kernel self \<noteq> []
        \<and> keep_kernels self sys lib policy = Inr kept \<longrightarrow> fallback_kernel self \<in> set kept"
    using keep_fallback_rule_in by blast
  have c: "length (list_installed_kernels sys') < 2 \<longrightarrow>
        fallback_kernel (init sys') = get_current_kernel sys'"
    by (simp add: init_def get_fallback_kernel_def Let_def)
  let ?p = "default_policy\<lparr>keep_latest := 0\<rparr>"
  have "exclude_fallback ?p \<and> min_kernels ?p = 1
         \<and> keep_kernels (init host_foreign) host_foreign py_datetime ?p = Inr [''6.1.0-custom'']
         \<and> (\<exists>v \<in> set [''6.1.0-custom'']. v \<notin> set (list_installed_kernels host_foreign))
         \<and> list_installed_kernels host_foreign \<noteq> []
         \<and> identify_kernels_to_remove (init host_foreign) host_foreign py_datetime ?p
             = Inr (kernels_info (init host_foreign) host_foreign py_datetime)"
    by (simp add: foreign_keep foreign_list foreign_remove foreign_infos policy_facts)
  then have d: "\<exists>host lib policy kept.
         exclude_fallback policy \<and> min_kernels policy = 1
         \<and> keep_kernels (init host) host lib policy = Inr kept
         \<and> (\<exists>v \<in> set kept. v \<notin> set (list_installed_kernels host))
         \<and> list_installed_kernels host \<noteq> []
         \<and> identify_kernels_to_remove (init host) host lib policy
             = Inr (kernels_info (init host) host lib)"
    by blast
  have "keep_kernels (init host_rebooting) host_rebooting py_datetime default_policy
          = Inr [''6.0.5'', ''6.0.5'', ''6.1.0''] \<and> \<not> distinct [''6.0.5'', ''6.0.5'', ''6.1.0'']"
    by (simp add: rebooting_keep)
  then have e: "\<exists>host lib policy kept.
         keep_kernels (init host) host lib policy = Inr kept \<and> \<not> distinct kept"
    by blast
  from a b c d e show ?thesis by blast
qed

theorem fallback_kept_unchecked_witness:
  "exclude_fallback (default_policy\<lparr>keep_latest := 0\<rparr>)
   \<and> fallback_kernel (init host_foreign) = ''6.1.0-custom''
   \<and> keep_fallback_rule (init host_foreign) (default_policy\<lparr>keep_latest := 0\<rparr>) []
       = [''6.1.0-custom'']
   \<and> keep_kernels (init host_foreign) host_foreign py_datetime
        (default_policy\<lparr>keep_latest := 0\<rparr>) = Inr [''6.1.0-custom'']
   \<and> fallback_kernel (init host_foreign) \<in> set [''6.1.0-custom'']
   \<and> length (list_installed_kernels host_foreign) < 2
   \<and> fallback_kernel (init host_foreign) = get_current_kernel host_foreign"
proof -
  have f: "fallback_kernel (init host_foreign) = ''6.1.0-custom''" by code_simp
  have x: "exclude_fallback (default_policy\<lparr>keep_latest := 0\<rparr>)"
    by (rule policy_facts)
  from fallback_kept_unchecked[of "default_policy\<lparr>keep_latest := 0\<rparr>" "init host_foreign"
         "[]" host_foreign py_datetime "[''6.1.0-custom'']" host_foreign]
       f x foreign_keep foreign_list
  show ?thesis by simp
qed

text \<open>
  C3, at a host where the claim fails. One kernel package is installed and the host
  runs a kernel that is no package. With both exclusions set, \<open>keep_latest = 0\<close> and
  \<open>min_kernels = 1\<close>, the keep list is the name of the running kernel alone, kept as
  the fallback; it counts as the one kernel of the floor, and the only installed kernel
  is returned for removal.
\<close>

theorem only_kernel_removed:
  "list_installed_kernels host_foreign = [''5.10.0'']
   \<and> min_kernels (default_policy\<lparr>keep_latest := 0\<rparr>) = 1
   \<and> keep_kernels (init host_foreign) host_foreign py_datetime
        (default_policy\<lparr>keep_latest := 0\<rparr>) = Inr [''6.1.0-custom'']
   \<and> identify_kernels_to_remove (init host_foreign) host_foreign py_datetime
        (default_policy\<lparr>keep_latest := 0\<rparr>)
       = Inr [\<lparr>version = ''5.10.0'', is_current = False, install_date = [],
               size_text = ''N/A'', is_fallback = False\<rparr>]"
  by (simp add: foreign_keep foreign_list foreign_remove policy_facts)

lemma foreign_keep_default:
  "keep_kernels (init host_foreign) host_foreign py_datetime default_policy
     = Inr [''6.1.0-custom'', ''5.10.0'']"
  by code_simp

lemma foreign_remove_default:
  "identify_kernels_to_remove (init host_foreign) host_foreign py_datetime default_policy
     = Inr []"
  by code_simp

text \<open>
  C1, at a host where the claim fails. One kernel package is installed and the host
  runs a kernel that is no package. With the default policy the keep list holds the name
  of the running kernel, kept as the fallback, next to the installed version, and the
  remove list is empty: the keep list and the removed versions together are more than
  the catalog, so they do not split it.
\<close>

theorem keep_outside_catalog:
  "list_installed_kernels host_foreign = [''5.10.0'']
   \<and> keep_kernels (init host_foreign) host_foreign py_datetime default_policy
       = Inr [''6.1.0-custom'', ''5.10.0'']
   \<and> identify_kernels_to_remove (init host_foreign) host_foreign py_datetime default_policy
       = Inr []
   \<and> set [''6.1.0-custom'', ''5.10.0''] \<union> version ` set ([] :: kernel_info list)
       \<noteq> set (list_installed_kernels host_foreign)
   \<and> \<not> set [''6.1.0-custom'', ''5.10.0''] \<subseteq> set (list_installed_kernels host_foreign)"
  by (simp add: foreign_keep_default foreign_remove_default foreign_list)

lemma rebooting_keep3:
  "keep_kernels (init host_rebooting) host_rebooting py_datetime
     (default_policy\<lparr>min_kernels := 3\<rparr>) = Inr [''6.0.5'', ''6.0.5'', ''6.1.0'']"
  by code_simp

lemma rebooting_remove3:
  "identify_kernels_to_remove (init host_rebooting) host_rebooting py_datetime
     (default_policy\<lparr>min_kernels := 3\<rparr>)
   = Inr [\<lparr>version = ''5.19.2'', is_current = False, install_date = [],
           size_text = ''N/A'', is_fallback = False\<rparr>]"
  by code_simp

lemma rebooting_list:
  "list_installed_kernels host_rebooting = [''6.1.0'', ''6.0.5'', ''5.19.2'']"
  by code_simp

text \<open>
  C4, at a host where the claim fails. Three kernels are installed and the second
  newest is running, so it is the fallback as well. With the default policy and
  \<open>min_kernels = 3\<close> the keep list has three entries, two of them the same version:
  two kernels of the catalog are kept, fewer than the floor of three, although the
  catalog has no more kernels than \<open>min_kernels\<close>, and the third kernel is returned for
  removal.
\<close>

theorem floor_not_met:
  "list_installed_kernels host_rebooting = [''6.1.0'', ''6.0.5'', ''5.19.2'']
   \<and> min_kernels (default_policy\<lparr>min_kernels := 3\<rparr>) = 3
   \<and> keep_kernels (init host_rebooting) host_rebooting py_datetime
        (default_policy\<lparr>min_kernels := 3\<rparr>) = Inr [''6.0.5'', ''6.0.5'', ''6.1.0'']
   \<and> card (set [''6.0.5'', ''6.0.5'', ''6.1.0''] \<inter> set (list_installed_kernels host_rebooting)) = 2
   \<and> identify_kernels_to_remove (init host_rebooting) host_rebooting py_datetime
        (default_policy\<lparr>min_kernels := 3\<rparr>)
       = Inr [\<lparr>version = ''5.19.2'', is_current = False, install_date = [],
               size_text = ''N/A'', is_fallback = False\<rparr>]"
  by (simp add: rebooting_keep3 rebooting_remove3 rebooting_list policy_facts)

text \<open>
  C5, at a host where the claim fails. The running kernel is the fallback and one of
  the two newest. With the default policy its version is in the keep list twice.
\<close>

theorem current_fallback_kept_twice:
  "current_kernel (init host_rebooting) = ''6.0.5''
   \<and> fallback_kernel (init host_rebooting) = ''6.0.5''
   \<and> ''6.0.5'' \<in> set (take 2 (list_installed_kernels host_rebooting))
   \<and> keep_latest default_policy = 2
   \<and> keep_kernels (init host_rebooting) host_rebooting py_datetime default_policy
       = Inr [''6.0.5'', ''6.0.5'', ''6.1.0'']
   \<and> count_list [''6.0.5'', ''6.0.5'', ''6.1.0''] ''6.0.5'' = 2"
proof -
  have c: "current_kernel (init host_rebooting) = ''6.0.5''" by code_simp
  have f: "fallback_kernel (init host_rebooting) = ''6.0.5''" by code_simp
  show ?thesis
    by (simp add: c f rebooting_keep rebooting_list policy_facts)
qed

subsection \<open>The floor without the fallback rule\<close>

lemma fold_invariant:
  assumes "P acc" and "\<And>x a. x \<in> set xs \<Longrightarrow> P a \<Longrightarrow> P (f x a)"
  shows "P (fold f xs acc)"
  using assms
proof (induction xs arbitrary: acc)
  case Nil
  then show ?case by simp
next
  case (Cons x xs)
  have "P (f x acc)" using Cons.prems by simp
  then have "P (fold f xs (f x acc))"
    by (rule Cons.IH) (simp add: Cons.prems(2))
  then show ?case by simp
qed

lemma min_kernels_loop_invariant:
  assumes "P keep"
    and "\<And>k a. k \<in> set ks \<Longrightarrow> version k \<notin> set a \<Longrightarrow> P a \<Longrightarrow> P (a @ [version k])"
  shows "P (min_kernels_loop m ks keep)"
  using assms
proof (induction ks arbitrary: keep)
  case Nil
  then show ?case by simp
next
  case (Cons k ks)
  have step: "P (if version k \<notin> set keep then keep @ [version k] else keep)"
    using Cons.prems by simp
  have "P (min_kernels_loop m ks (if version k \<notin> set keep then keep @ [version k] else keep))"
    by (rule Cons.IH[OF step]) (simp add: Cons.prems(2))
  with Cons.prems(1) show ?case by simp
qed

lemma min_kernels_loop_floor:
  "m \<le> int (length (min_kernels_loop m ks keep))
   \<or> version ` set ks \<subseteq> set (min_kernels_loop m ks keep)"
proof (induction ks arbitrary: keep)
  case Nil
  show ?case by simp
next
  case (Cons k ks)
  show ?case
  proof (cases "m \<le> int (length keep)")
    case True
    then show ?thesis by simp
  next
    case False
    let ?keep' = "if version k \<notin> set keep then keep @ [version k] else keep"
    have r: "min_kernels_loop m (k # ks) keep = min_kernels_loop m ks ?keep'"
      using False by simp
    have "version k \<in> set ?keep'" by simp
    then have "version k \<in> set (min_kernels_loop m ks ?keep')"
      using min_kernels_loop_grows by blast
    with Cons.IH[of ?keep'] show ?thesis unfolding r by auto
  qed
qed

text \<open>
  When the rule of the fallback kernel does not fire, the keep list holds installed
  versions only, each once, and the floor is met: the duplicates and the foreign
  entries above come from that rule alone.
\<close>

lemma keep_without_fallback:
  assumes nf: "\<not> (exclude_fallback policy \<and> fallback_kernel self \<noteq> [])"
    and k: "keep_kernels self sys lib policy = Inr keep"
  shows "distinct keep \<and> set keep \<subseteq> set (list_installed_kernels sys)
         \<and> min (min_kernels policy) (int (length (list_installed_kernels sys)))
             \<le> int (length keep)"
proof -
  let ?infos = "kernels_info self sys lib"
  define P where "P = (\<lambda>a. distinct a \<and> set a \<subseteq> version ` set ?infos)"
  have add: "P (a @ [version j])" if "P a" "j \<in> set ?infos" "version j \<notin> set a" for a j
    using that by (simp add: P_def)
  have v: "version ` set ?infos = set (list_installed_kernels sys)"
  proof -
    have "set (map version ?infos) = set (list_installed_kernels sys)"
      by (simp only: version_kernels_info)
    then show ?thesis by simp
  qed
  have p0: "P []" by (simp add: P_def)
  have p1: "P (keep_current_rule policy ?infos [])"
  proof (cases "find is_current ?infos")
    case None
    with p0 show ?thesis by (simp add: keep_current_rule_def)
  next
    case (Some c)
    then have "c \<in> set ?infos" by (auto simp: find_Some_iff)
    from add[OF p0 this] Some p0 show ?thesis by (simp add: keep_current_rule_def)
  qed
  have p2: "P (keep_fallback_rule self policy (keep_current_rule policy ?infos []))"
    using nf p1 by (auto simp: keep_fallback_rule_def)
  have p4: "P (keep_before_days self policy ?infos)"
    unfolding keep_before_days_def keep_latest_rule_def Let_def
  proof (rule fold_invariant[of P, OF p2])
    fix i a
    assume i: "i \<in> set [0 ..< nat (min (min (keep_latest policy) (int (length ?infos)))
                                   (int (length ?infos)))]"
      and a: "P a"
    from i have "i < length ?infos" by auto
    then have "?infos ! i \<in> set ?infos" by simp
    from add[OF a this] a
    show "P (if version (?infos ! i) \<notin> set a then a @ [version (?infos ! i)] else a)"
      by simp
  qed
  have p5: "P (keep_days_rule lib c ?infos (keep_before_days self policy ?infos))" for c
    unfolding keep_days_rule_def
  proof (rule fold_invariant[of P, OF p4])
    fix j a
    assume j: "j \<in> set ?infos" and a: "P a"
    from add[OF a j] a
    show "P (if install_date j \<noteq> ''Unknown'' then
              (case strptime lib (install_date j) of
                 None \<Rightarrow> a
               | Some d \<Rightarrow> if d > c \<and> version j \<notin> set a then a @ [version j] else a)
            else a)"
      by (simp split: option.splits)
  qed
  from k obtain before where bm: "keep_before_min self sys lib policy = Inr before"
    and keep: "keep = min_kernels_loop (min_kernels policy) ?infos before"
    by (auto simp: keep_kernels_def min_kernels_rule_loop split: sum.splits)
  from bm p4 p5 have pb: "P before"
    by (auto simp: keep_before_min_def Let_def split: if_splits sum.splits)
  have "P keep" unfolding keep
    by (rule min_kernels_loop_invariant[of P, OF pb]) (simp add: add)
  then have pk: "distinct keep" "set keep \<subseteq> set (list_installed_kernels sys)"
    using v by (simp_all add: P_def)
  have "min (min_kernels policy) (int (length (list_installed_kernels sys))) \<le> int (length keep)"
  proof -
    from min_kernels_loop_floor[of "min_kernels policy" ?infos before] keep
    consider "min_kernels policy \<le> int (length keep)" | "version ` set ?infos \<subseteq> set keep"
      by auto
    then show ?thesis
    proof cases
      case 1
      then show ?thesis by simp
    next
      case 2
      with pk v have "set keep = set (list_installed_kernels sys)" by auto
      then have "card (set keep) = card (set (list_installed_kernels sys))" by simp
      with pk(1) distinct_list_installed_kernels[of sys]
      have "length keep = length (list_installed_kernels sys)"
        by (simp add: distinct_card)
      then show ?thesis by simp
    qed
  qed
  with pk show ?thesis by simp
qed

text \<open>
  So without the rule of the fallback kernel the keep list and the removed versions
  split the installed versions.
\<close>

lemma partition_without_fallback:
  assumes nf: "\<not> (exclude_fallback policy \<and> fallback_kernel self \<noteq> [])"
    and r: "identify_kernels_to_remove self sys lib policy = Inr remove"
  shows "\<exists>keep. keep_kernels self sys lib policy = Inr keep
           \<and> set keep \<union> version ` set remove = set (list_installed_kernels sys)
           \<and> set keep \<inter> version ` set remove = {}"
proof -
  from identify_filter[OF r] obtain keep where k: "keep_kernels self sys lib policy = Inr keep"
    and f: "remove = filter (\<lambda>k. version k \<notin> set keep) (kernels_info self sys lib)"
    by blast
  from keep_without_fallback[OF nf k] have sub: "set keep \<subseteq> set (list_installed_kernels sys)"
    by simp
  have v: "version ` set (kernels_info self sys lib) = set (list_installed_kernels sys)"
  proof -
    have "set (map version (kernels_info self sys lib)) = set (list_installed_kernels sys)"
      by (simp only: version_kernels_info)
    then show ?thesis by simp
  qed
  have "set keep \<union> version ` set remove = set (list_installed_kernels sys)"
    using sub v unfolding f by auto
  moreover have "set keep \<inter> version ` set remove = {}"
    unfolding f by auto
  ultimately show ?thesis using k by blast
qed

text \<open>
  A kernel whose \<^verbatim>\<open>dpkg -s\<close> fails or shows no install time gets the empty text as
  its install date.
\<close>

lemma install_date_missing:
  "dpkg_s sys (''linux-image-'' @ v) = None \<Longrightarrow> install_date (get_kernel_info self sys lib v) = []"
  by (simp add: get_kernel_info_def)

lemma install_date_no_line:
  assumes "dpkg_s sys (''linux-image-'' @ v) = Some lines"
    and "\<forall>line \<in> set lines. \<not> startswith line ''Install-Time:''"
  shows "install_date (get_kernel_info self sys lib v) = []"
proof -
  have "install_date_loop lib ls d = d" if "\<forall>line \<in> set ls. \<not> startswith line ''Install-Time:''"
    for ls d using that by (induction ls arbitrary: d) simp_all
  with assms show ?thesis by (simp add: get_kernel_info_def)
qed

end
